theory Spec2Isabelle
  imports Complex_Main "HOL-Library.AList" "HOL-Library.Multiset"
begin

section \<open>ExpenseSplitter: balances and settlement plan\<close>

text \<open>
  A shallow embedding of \<^verbatim>\<open>ExpenseManager.calculate_balances\<close> and
  \<^verbatim>\<open>ExpenseManager.get_settlement_plan\<close> of \<^verbatim>\<open>ExpenseSplitter.py\<close>.
  Currency amounts are Python floats in the source; here they are exact rationals, so
  every statement below is about exact arithmetic. The tolerance \<^verbatim>\<open>0.01\<close> of the source
  is the rational \<open>1/100\<close>.
\<close>

subsection \<open>Data\<close>

type_synonym person_id = nat

text \<open>The value stored per person in the \<^verbatim>\<open>balances\<close> dict:
  \<^verbatim>\<open>{'name': person_name, 'balance': 0}\<close>.\<close>

record balance_entry =
  name :: string
  balance :: rat

text \<open>
  A Python dict iterates in insertion order, and the order decides how ties are sorted
  in the settlement plan, so the dict is an association list; assigning to a key that is
  present replaces the value in place and assigning to a new key appends
  (\<^const>\<open>AList.update\<close>).
\<close>

type_synonym balances = "(person_id \<times> balance_entry) list"

text \<open>An element of \<^verbatim>\<open>debtors\<close> or \<^verbatim>\<open>creditors\<close>: \<^verbatim>\<open>(person_id, name, amount)\<close>.\<close>

type_synonym party = "person_id \<times> string \<times> rat"

text \<open>An element of \<^verbatim>\<open>transactions\<close>:
  \<^verbatim>\<open>(debtor_id, debtor_name, creditor_id, creditor_name, amount)\<close>.\<close>

type_synonym txn = "person_id \<times> string \<times> person_id \<times> string \<times> rat"

definition amount :: "party \<Rightarrow> rat" where
  "amount x = snd (snd x)"

definition txn_debtor :: "txn \<Rightarrow> person_id" where
  "txn_debtor t = fst t"

definition txn_creditor :: "txn \<Rightarrow> person_id" where
  "txn_creditor t = fst (snd (snd t))"

definition txn_amount :: "txn \<Rightarrow> rat" where
  "txn_amount t = snd (snd (snd (snd t)))"

subsection \<open>The settlement plan (lines 252 to 290)\<close>

text \<open>
  The loop \<^verbatim>\<open>for person_id, data in balances.items()\<close>: one pass that appends to
  \<^verbatim>\<open>debtors\<close> when the balance is below zero and to \<^verbatim>\<open>creditors\<close> when it is above,
  with strict comparisons.
\<close>

definition classify :: "party list \<times> party list \<Rightarrow> person_id \<times> balance_entry \<Rightarrow> party list \<times> party list" where
  "classify acc kv =
     (case acc of (debtors, creditors) \<Rightarrow>
      case kv of (person_id, data) \<Rightarrow>
        if balance data < 0 then (debtors @ [(person_id, name data, \<bar>balance data\<bar>)], creditors)
        else if balance data > 0 then (debtors, creditors @ [(person_id, name data, balance data)])
        else (debtors, creditors))"

definition split_parties :: "balances \<Rightarrow> party list \<times> party list" where
  "split_parties bs = foldl classify ([], []) bs"

text \<open>
  \<^verbatim>\<open>xs.sort(key=lambda x: x[2], reverse=True)\<close>: Python's sort is stable also with
  \<^verbatim>\<open>reverse=True\<close>, that is, entries with equal amounts keep their relative order. The
  stable insertion sort of the library on the negated amount is that order.
\<close>

definition sort_desc :: "party list \<Rightarrow> party list" where
  "sort_desc xs = sort_key (\<lambda>x. - amount x) xs"

text \<open>The variables of the \<^verbatim>\<open>while\<close> loop.\<close>

record walk_state =
  debtors :: "party list"
  creditors :: "party list"
  i :: nat
  j :: nat
  transactions :: "txn list"

definition running :: "walk_state \<Rightarrow> bool" where
  "running s \<longleftrightarrow> i s < length (debtors s) \<and> j s < length (creditors s)"

text \<open>One iteration of the loop body; it is only run when \<^const>\<open>running\<close> holds, so both
  index reads are in range.\<close>

definition step :: "walk_state \<Rightarrow> walk_state" where
  "step s =
     (case debtors s ! i s of (debtor_id, debtor_name, debt) \<Rightarrow>
      case creditors s ! j s of (creditor_id, creditor_name, credit) \<Rightarrow>
        if \<bar>debt - credit\<bar> < 1 / 100 then
          s\<lparr>transactions := transactions s @ [(debtor_id, debtor_name, creditor_id, creditor_name, debt)],
            i := i s + 1, j := j s + 1\<rparr>
        else if debt < credit then
          s\<lparr>transactions := transactions s @ [(debtor_id, debtor_name, creditor_id, creditor_name, debt)],
            creditors := (creditors s)[j s := (creditor_id, creditor_name, credit - debt)],
            i := i s + 1\<rparr>
        else
          s\<lparr>transactions := transactions s @ [(debtor_id, debtor_name, creditor_id, creditor_name, credit)],
            debtors := (debtors s)[i s := (debtor_id, debtor_name, debt - credit)],
            j := j s + 1\<rparr>)"

text \<open>The loop itself. Every iteration moves at least one cursor forward and leaves
  the lengths of both lists as they are, which is the termination argument.\<close>

function walk :: "walk_state \<Rightarrow> walk_state" where
  "walk s = (if running s then walk (step s) else s)"
  by pat_completeness auto
termination
  by (relation "measure (\<lambda>s. (length (debtors s) - i s) + (length (creditors s) - j s))")
     (auto simp: running_def step_def split: prod.splits)

declare walk.simps [simp del]

definition plan_settlement :: "balances \<Rightarrow> txn list" where
  "plan_settlement bs =
     (case split_parties bs of (ds, cs) \<Rightarrow>
        transactions (walk \<lparr>debtors = sort_desc ds, creditors = sort_desc cs,
                            i = 0, j = 0, transactions = []\<rparr>))"

subsection \<open>The balances (lines 211 to 246)\<close>

text \<open>
  The three tables that \<^verbatim>\<open>calculate_balances\<close> reads, each as the list of its rows:
  \<^verbatim>\<open>person(id, name)\<close>, \<^verbatim>\<open>expense(id, description, amount, date, paid_by)\<close> and
  \<^verbatim>\<open>expense_split(id, expense_id, person_id, share_amount)\<close>.
\<close>

type_synonym person_row = "person_id \<times> string"
type_synonym expense_row = "nat \<times> string \<times> rat \<times> string \<times> person_id"
type_synonym split_row = "nat \<times> nat \<times> person_id \<times> rat"

record database =
  person :: "person_row list"
  expense :: "expense_row list"
  expense_split :: "split_row list"

definition expense_id :: "expense_row \<Rightarrow> nat" where
  "expense_id e = fst e"

definition expense_amount :: "expense_row \<Rightarrow> rat" where
  "expense_amount e = fst (snd (snd e))"

definition paid_by :: "expense_row \<Rightarrow> person_id" where
  "paid_by e = snd (snd (snd (snd e)))"

definition split_expense :: "split_row \<Rightarrow> nat" where
  "split_expense r = fst (snd r)"

definition split_person :: "split_row \<Rightarrow> person_id" where
  "split_person r = fst (snd (snd r))"

definition share_amount :: "split_row \<Rightarrow> rat" where
  "share_amount r = snd (snd (snd r))"

text \<open>
  \<^verbatim>\<open>SELECT k, SUM(v) FROM t GROUP BY k\<close>: one row per key that occurs, with the sum of
  the values of that key. SQLite groups by sorting, so the groups come in ascending order
  of the key.
\<close>

definition group_sum :: "(nat \<times> rat) list \<Rightarrow> (nat \<times> rat) list" where
  "group_sum rows =
     map (\<lambda>k. (k, sum_list (map snd (filter (\<lambda>r. fst r = k) rows)))) (sort (remdups (map fst rows)))"

datatype error = KeyError person_id

text \<open>\<^verbatim>\<open>for paid_by, total_paid in payments: balances[paid_by]['balance'] += total_paid\<close>.
  Reading a key that the dict does not have raises \<^verbatim>\<open>KeyError\<close>.\<close>

fun add_payments :: "(person_id \<times> rat) list \<Rightarrow> balances \<Rightarrow> error + balances" where
  "add_payments [] bs = Inr bs"
| "add_payments ((payer, total_paid) # rest) bs =
     (case map_of bs payer of
        None \<Rightarrow> Inl (KeyError payer)
      | Some data \<Rightarrow>
          add_payments rest (AList.update payer (data\<lparr>balance := balance data + total_paid\<rparr>) bs))"

text \<open>\<^verbatim>\<open>for person_id, total_share in shares: balances[person_id]['balance'] -= total_share\<close>.\<close>

fun subtract_shares :: "(person_id \<times> rat) list \<Rightarrow> balances \<Rightarrow> error + balances" where
  "subtract_shares [] bs = Inr bs"
| "subtract_shares ((pid, total_share) # rest) bs =
     (case map_of bs pid of
        None \<Rightarrow> Inl (KeyError pid)
      | Some data \<Rightarrow>
          subtract_shares rest (AList.update pid (data\<lparr>balance := balance data - total_share\<rparr>) bs))"

text \<open>\<^verbatim>\<open>for person in persons: balances[person_id] = {'name': person_name, 'balance': 0}\<close>.\<close>

definition init_balances :: "person_row list \<Rightarrow> balances" where
  "init_balances persons =
     foldl (\<lambda>bs row. case row of (pid, person_name) \<Rightarrow>
              AList.update pid \<lparr>name = person_name, balance = 0\<rparr> bs) [] persons"

definition calculate_balances :: "database \<Rightarrow> error + balances" where
  "calculate_balances db =
     (let payments = group_sum (map (\<lambda>e. (paid_by e, expense_amount e)) (expense db));
          shares = group_sum (map (\<lambda>r. (split_person r, share_amount r)) (expense_split db))
      in case add_payments payments (init_balances (person db)) of
           Inl e \<Rightarrow> Inl e
         | Inr bs \<Rightarrow> subtract_shares shares bs)"

definition get_settlement_plan :: "database \<Rightarrow> error + txn list" where
  "get_settlement_plan db =
     (case calculate_balances db of
        Inl e \<Rightarrow> Inl e
      | Inr bs \<Rightarrow> Inr (plan_settlement bs))"

subsection \<open>Deleting an expense (lines 199 to 209)\<close>

text \<open>
  \<^verbatim>\<open>delete_expense\<close> runs \<^verbatim>\<open>DELETE FROM expense WHERE id = ?\<close> and nothing else; its
  comment says that the cascade will delete the related splits. The schema declares
  \<^verbatim>\<open>ON DELETE CASCADE\<close> for \<^verbatim>\<open>expense_split.expense_id\<close>, but SQLite applies foreign key
  actions only on a connection that has run \<^verbatim>\<open>PRAGMA foreign_keys = ON\<close>, and no statement
  of the source does. So the rows of the expense table with that id go and the split rows
  stay. (\<^verbatim>\<open>update_expense\<close>, in contrast, deletes the split rows of the expense itself.)
\<close>

definition delete_expense :: "database \<Rightarrow> nat \<Rightarrow> database" where
  "delete_expense db eid = db\<lparr>expense := filter (\<lambda>e. expense_id e \<noteq> eid) (expense db)\<rparr>"

subsection \<open>Quantities that the properties speak of\<close>

definition total_paid_by :: "database \<Rightarrow> person_id \<Rightarrow> rat" where
  "total_paid_by db p = sum_list (map expense_amount (filter (\<lambda>e. paid_by e = p) (expense db)))"

definition total_share_of :: "database \<Rightarrow> person_id \<Rightarrow> rat" where
  "total_share_of db p =
     sum_list (map share_amount (filter (\<lambda>r. split_person r = p) (expense_split db)))"

text \<open>Every payer and every split person is a row of the person table.\<close>

definition references_known :: "database \<Rightarrow> bool" where
  "references_known db \<longleftrightarrow>
     list_all (\<lambda>e. paid_by e \<in> fst ` set (person db)) (expense db) \<and>
     list_all (\<lambda>r. split_person r \<in> fst ` set (person db)) (expense_split db)"

text \<open>The shares recorded for one expense.\<close>

definition splits_of :: "database \<Rightarrow> nat \<Rightarrow> split_row list" where
  "splits_of db eid = filter (\<lambda>r. split_expense r = eid) (expense_split db)"

text \<open>Every split row carries the id of a row of the expense table.\<close>

definition splits_belong :: "database \<Rightarrow> bool" where
  "splits_belong db \<longleftrightarrow>
     list_all (\<lambda>r. split_expense r \<in> expense_id ` set (expense db)) (expense_split db)"

text \<open>The split rows of the expenses of the table, and a person's shares across all
  expenses: the shares of that person in these rows. A split row whose expense is not in
  the table is not the split of any expense.\<close>

definition expense_splits :: "database \<Rightarrow> split_row list" where
  "expense_splits db =
     filter (\<lambda>r. split_expense r \<in> expense_id ` set (expense db)) (expense_split db)"

definition shares_across_expenses :: "database \<Rightarrow> person_id \<Rightarrow> rat" where
  "shares_across_expenses db p =
     sum_list (map share_amount (filter (\<lambda>r. split_person r = p) (expense_splits db)))"

text \<open>The shares of every expense of the table add up to its amount.\<close>

definition shares_exact :: "database \<Rightarrow> bool" where
  "shares_exact db \<longleftrightarrow>
     list_all (\<lambda>e. sum_list (map share_amount (splits_of db (expense_id e))) = expense_amount e)
       (expense db)"

definition balance_sum :: "balances \<Rightarrow> rat" where
  "balance_sum bs = sum_list (map (\<lambda>kv. balance (snd kv)) bs)"







subsection \<open>The walk as a recursion on the entries not yet passed\<close>

text \<open>
  A second view of the loop, used in the proofs only: the two arguments are the parts of
  \<^verbatim>\<open>debtors\<close> and \<^verbatim>\<open>creditors\<close> from the cursors on. \<open>settle\<close> gives the transactions
  that the rest of the loop appends, \<open>leftover\<close> the two parts at the moment the loop stops.
\<close>

fun settle :: "party list \<Rightarrow> party list \<Rightarrow> txn list" where
  "settle ((di, dn, debt) # ds) ((ci, cn, credit) # cs) =
     (if \<bar>debt - credit\<bar> < 1 / 100 then (di, dn, ci, cn, debt) # settle ds cs
      else if debt < credit then (di, dn, ci, cn, debt) # settle ds ((ci, cn, credit - debt) # cs)
      else (di, dn, ci, cn, credit) # settle ((di, dn, debt - credit) # ds) cs)"
| "settle [] cs = []"
| "settle ds [] = []"

fun leftover :: "party list \<Rightarrow> party list \<Rightarrow> party list \<times> party list" where
  "leftover ((di, dn, debt) # ds) ((ci, cn, credit) # cs) =
     (if \<bar>debt - credit\<bar> < 1 / 100 then leftover ds cs
      else if debt < credit then leftover ds ((ci, cn, credit - debt) # cs)
      else leftover ((di, dn, debt - credit) # ds) cs)"
| "leftover [] cs = ([], cs)"
| "leftover ds [] = (ds, [])"




subsection \<open>The two lists as comprehensions\<close>

text \<open>What the classifying pass computes, written as filters of the dict's items.\<close>

definition debtors_of :: "balances \<Rightarrow> party list" where
  "debtors_of bs = map (\<lambda>kv. (fst kv, name (snd kv), \<bar>balance (snd kv)\<bar>)) (filter (\<lambda>kv. balance (snd kv) < 0) bs)"

definition creditors_of :: "balances \<Rightarrow> party list" where
  "creditors_of bs = map (\<lambda>kv. (fst kv, name (snd kv), balance (snd kv))) (filter (\<lambda>kv. balance (snd kv) > 0) bs)"

text \<open>The sum of the values that a list of rows has for one key.\<close>

definition key_sum :: "nat \<Rightarrow> (nat \<times> rat) list \<Rightarrow> rat" where
  "key_sum k rows = sum_list (map snd (filter (\<lambda>r. fst r = k) rows))"

subsection \<open>Example inputs\<close>

text \<open>Scenario A with a fourth person, Dave, who has no expense and no share; the balances
  that result; and the state in which the loop starts on them.\<close>

definition example_db :: database where
  "example_db = \<lparr>person = [(1, ''Alice''), (2, ''Bob''), (3, ''Carol''), (4, ''Dave'')],
                  expense = [(1, ''Dinner'', 30, ''2024-01-01'', 1)],
                  expense_split = [(1, 1, 1, 10), (2, 1, 2, 10), (3, 1, 3, 10)]\<rparr>"

definition example_balances :: balances where
  "example_balances = [(1, \<lparr>name = ''Alice'', balance = 20\<rparr>), (2, \<lparr>name = ''Bob'', balance = - 10\<rparr>),
                       (3, \<lparr>name = ''Carol'', balance = - 10\<rparr>), (4, \<lparr>name = ''Dave'', balance = 0\<rparr>)]"

text \<open>Two expenses that Alice paid: a dinner of 20 shared with Bob, 10 each, and a taxi of
  30 that is all Bob's.\<close>

definition two_expenses_db :: database where
  "two_expenses_db = \<lparr>person = [(1, ''Alice''), (2, ''Bob'')],
                       expense = [(1, ''Dinner'', 20, ''2024-01-01'', 1), (2, ''Taxi'', 30, ''2024-01-02'', 1)],
                       expense_split = [(1, 1, 1, 10), (2, 1, 2, 10), (3, 2, 2, 30)]\<rparr>"

definition example_state :: walk_state where
  "example_state = \<lparr>debtors = [(2, ''Bob'', 10), (3, ''Carol'', 10)], creditors = [(1, ''Alice'', 20)],
                     i = 0, j = 0, transactions = []\<rparr>"

section \<open>Properties of the walk\<close>

lemma settle_Nil2: "settle ds [] = []"
  by (cases ds) auto


lemma drop_update_here: "n < length xs \<Longrightarrow> drop n (xs[n := x]) = x # drop (Suc n) xs"
  by (metis Cons_nth_drop_Suc drop_update_cancel length_list_update lessI nth_list_update_eq)

lemma walk_settle:
  "transactions (walk s) = transactions s @ settle (drop (i s) (debtors s)) (drop (j s) (creditors s))"
proof (induction s rule: walk.induct)
  case (1 s)
  show ?case
  proof (cases "running s")
    case True
    obtain di dn debt where d: "debtors s ! i s = (di, dn, debt)"
      by (cases "debtors s ! i s") auto
    obtain ci cn credit where c: "creditors s ! j s = (ci, cn, credit)"
      by (cases "creditors s ! j s") auto
    from True have il: "i s < length (debtors s)" and jl: "j s < length (creditors s)"
      by (simp_all add: running_def)
    have dd: "drop (i s) (debtors s) = (di, dn, debt) # drop (Suc (i s)) (debtors s)"
      using il d by (metis Cons_nth_drop_Suc)
    have cc: "drop (j s) (creditors s) = (ci, cn, credit) # drop (Suc (j s)) (creditors s)"
      using jl c by (metis Cons_nth_drop_Suc)
    have w: "walk s = walk (step s)"
      using True walk.simps [of s] by simp
    show ?thesis
      using "1.IH" [OF True] il jl
      by (simp add: w step_def d c dd cc drop_update_here)
  next
    case False
    then have "drop (i s) (debtors s) = [] \<or> drop (j s) (creditors s) = []"
      by (auto simp: running_def)
    moreover have "walk s = s"
      using False walk.simps [of s] by simp
    ultimately show ?thesis
      by (auto simp: settle_Nil2)
  qed
qed

lemma settle_ids:
  "t \<in> set (settle ds cs) \<Longrightarrow> txn_debtor t \<in> fst ` set ds \<and> txn_creditor t \<in> fst ` set cs"
  by (induction ds cs rule: settle.induct)
     (auto simp: txn_debtor_def txn_creditor_def split: if_splits)

lemma settle_positive:
  "\<forall>x\<in>set ds. 0 < amount x \<Longrightarrow> \<forall>x\<in>set cs. 0 < amount x \<Longrightarrow> t \<in> set (settle ds cs) \<Longrightarrow> 0 < txn_amount t"
  by (induction ds cs rule: settle.induct)
     (auto simp: amount_def txn_amount_def split: if_splits)


lemma leftover_ids_fst: "x \<in> set (fst (leftover ds cs)) \<Longrightarrow> fst x \<in> fst ` set ds"
  by (induction ds cs rule: leftover.induct) (force split: if_splits)+







subsection \<open>The two lists and their order\<close>

lemma foldl_classify:
  "foldl classify (ds, cs) bs = (ds @ debtors_of bs, cs @ creditors_of bs)"
  by (induction bs arbitrary: ds cs)
     (auto simp: classify_def debtors_of_def creditors_of_def)

lemma split_parties_eq: "split_parties bs = (debtors_of bs, creditors_of bs)"
  by (simp add: split_parties_def foldl_classify)

lemma plan_settlement_settle:
  "plan_settlement bs = settle (sort_desc (debtors_of bs)) (sort_desc (creditors_of bs))"
  by (simp add: plan_settlement_def split_parties_eq walk_settle)

lemma set_sort_desc: "set (sort_desc xs) = set xs"
  by (simp add: sort_desc_def)




lemma debtors_of_positive: "x \<in> set (debtors_of bs) \<Longrightarrow> 0 < amount x"
  by (auto simp: debtors_of_def amount_def)

lemma creditors_of_positive: "x \<in> set (creditors_of bs) \<Longrightarrow> 0 < amount x"
  by (auto simp: creditors_of_def amount_def)

lemma debtors_of_ids: "p \<in> fst ` set (debtors_of bs) \<longleftrightarrow> (\<exists>e. (p, e) \<in> set bs \<and> balance e < 0)"
  by (force simp: debtors_of_def)

lemma creditors_of_ids: "p \<in> fst ` set (creditors_of bs) \<longleftrightarrow> (\<exists>e. (p, e) \<in> set bs \<and> 0 < balance e)"
  by (force simp: creditors_of_def)




subsection \<open>Accounts per person\<close>









subsection \<open>The differences that almost equal matches drop\<close>


















lemma plan_ids:
  "t \<in> set (plan_settlement bs) \<Longrightarrow>
   (\<exists>e. (txn_debtor t, e) \<in> set bs \<and> balance e < 0) \<and>
   (\<exists>e. (txn_creditor t, e) \<in> set bs \<and> 0 < balance e)"
  using settle_ids [of t "sort_desc (debtors_of bs)" "sort_desc (creditors_of bs)"]
  by (simp add: plan_settlement_settle set_sort_desc debtors_of_ids creditors_of_ids)

subsection \<open>The loop, iteration by iteration\<close>

lemma step_advances:
  "running s \<Longrightarrow>
   (i (step s) = Suc (i s) \<or> j (step s) = Suc (j s)) \<and> i s \<le> i (step s) \<and> j s \<le> j (step s) \<and>
   length (debtors (step s)) = length (debtors s) \<and> length (creditors (step s)) = length (creditors s)"
  by (auto simp: step_def split: prod.splits)

lemma walk_stops: "\<not> running (walk s)"
  by (induction s rule: walk.induct) (metis walk.simps)

lemma walk_iterations:
  "\<exists>n\<le>(length (debtors s) - i s) + (length (creditors s) - j s).
     walk s = (step ^^ n) s \<and> (\<forall>k<n. running ((step ^^ k) s))"
proof (induction s rule: walk.induct)
  case (1 s)
  show ?case
  proof (cases "running s")
    case True
    from "1.IH" [OF True] obtain n where
      n: "n \<le> (length (debtors (step s)) - i (step s)) + (length (creditors (step s)) - j (step s))"
      and w: "walk (step s) = (step ^^ n) (step s)"
      and r: "\<forall>k<n. running ((step ^^ k) (step s))"
      by blast
    have less: "(length (debtors (step s)) - i (step s)) + (length (creditors (step s)) - j (step s))
        < (length (debtors s) - i s) + (length (creditors s) - j s)"
      using True step_advances [OF True] by (auto simp: running_def)
    have "walk s = (step ^^ Suc n) s"
      using True w walk.simps [of s] by (simp add: funpow_swap1)
    moreover have "\<forall>k<Suc n. running ((step ^^ k) s)"
    proof (intro allI impI)
      fix k assume "k < Suc n"
      then show "running ((step ^^ k) s)"
        using True r by (cases k) (auto simp: funpow_swap1)
    qed
    moreover have "Suc n \<le> (length (debtors s) - i s) + (length (creditors s) - j s)"
      using n less by linarith
    ultimately show ?thesis by blast
  next
    case False
    then have "walk s = (step ^^ 0) s"
      using walk.simps [of s] by simp
    then show ?thesis by blast
  qed
qed

section \<open>Properties of the balances\<close>

lemma filter_eq_distinct:
  "distinct ks \<Longrightarrow> filter (\<lambda>k. k = p) ks = (if p \<in> set ks then [p] else [])"
  by (induction ks) auto

lemma key_sum_absent: "p \<notin> fst ` set rows \<Longrightarrow> key_sum p rows = 0"
  by (induction rows) (auto simp: key_sum_def)

lemma group_sum_keys: "fst ` set (group_sum rows) = fst ` set rows"
  by (force simp: group_sum_def)

lemma key_sum_group_sum: "key_sum p (group_sum rows) = key_sum p rows"
proof -
  have "filter (\<lambda>r. fst r = p) (group_sum rows)
      = map (\<lambda>k. (k, key_sum k rows)) (filter (\<lambda>k. k = p) (sort (remdups (map fst rows))))"
    by (simp add: group_sum_def key_sum_def filter_map comp_def)
  also have "\<dots> = (if p \<in> fst ` set rows then [(p, key_sum p rows)] else [])"
    by (simp add: filter_eq_distinct)
  finally show ?thesis
    by (simp add: key_sum_def [of p "group_sum rows"] key_sum_absent)
qed

lemma add_payments_result:
  "fst ` set rows \<subseteq> fst ` set bs \<Longrightarrow>
   \<exists>bs'. add_payments rows bs = Inr bs' \<and> map fst bs' = map fst bs \<and>
     (\<forall>p. map_of bs' p = map_option (\<lambda>e. e\<lparr>balance := balance e + key_sum p rows\<rparr>) (map_of bs p))"
proof (induction rows arbitrary: bs)
  case Nil
  then show ?case by (simp add: key_sum_def option.map_ident)
next
  case (Cons r rows)
  obtain k v where r: "r = (k, v)" by (cases r)
  with Cons.prems have "k \<in> fst ` set bs" by simp
  then obtain e where e: "map_of bs k = Some e"
    by (metis domD dom_map_of_conv_image_fst)
  let ?bs = "AList.update k (e\<lparr>balance := balance e + v\<rparr>) bs"
  have keys: "map fst ?bs = map fst bs"
    using \<open>k \<in> fst ` set bs\<close> by (simp add: update_keys)
  then have "fst ` set ?bs = fst ` set bs"
    by (metis list.set_map)
  with Cons.prems r have "fst ` set rows \<subseteq> fst ` set ?bs" by simp
  from Cons.IH [OF this] obtain bs' where
    a: "add_payments rows ?bs = Inr bs'" and b: "map fst bs' = map fst ?bs" and
    c: "\<forall>p. map_of bs' p = map_option (\<lambda>e. e\<lparr>balance := balance e + key_sum p rows\<rparr>) (map_of ?bs p)"
    by blast
  have "add_payments (r # rows) bs = Inr bs'"
    using a e r by simp
  moreover have "map fst bs' = map fst bs"
    using b keys by simp
  moreover have "map_of bs' p = map_option (\<lambda>e. e\<lparr>balance := balance e + key_sum p (r # rows)\<rparr>) (map_of bs p)" for p
    using c e r by (cases "p = k") (auto simp: update_conv' key_sum_def add.assoc)
  ultimately show ?case by blast
qed

lemma subtract_shares_result:
  "fst ` set rows \<subseteq> fst ` set bs \<Longrightarrow>
   \<exists>bs'. subtract_shares rows bs = Inr bs' \<and> map fst bs' = map fst bs \<and>
     (\<forall>p. map_of bs' p = map_option (\<lambda>e. e\<lparr>balance := balance e - key_sum p rows\<rparr>) (map_of bs p))"
proof (induction rows arbitrary: bs)
  case Nil
  then show ?case by (simp add: key_sum_def option.map_ident)
next
  case (Cons r rows)
  obtain k v where r: "r = (k, v)" by (cases r)
  with Cons.prems have "k \<in> fst ` set bs" by simp
  then obtain e where e: "map_of bs k = Some e"
    by (metis domD dom_map_of_conv_image_fst)
  let ?bs = "AList.update k (e\<lparr>balance := balance e - v\<rparr>) bs"
  have keys: "map fst ?bs = map fst bs"
    using \<open>k \<in> fst ` set bs\<close> by (simp add: update_keys)
  then have "fst ` set ?bs = fst ` set bs"
    by (metis list.set_map)
  with Cons.prems r have "fst ` set rows \<subseteq> fst ` set ?bs" by simp
  from Cons.IH [OF this] obtain bs' where
    a: "subtract_shares rows ?bs = Inr bs'" and b: "map fst bs' = map fst ?bs" and
    c: "\<forall>p. map_of bs' p = map_option (\<lambda>e. e\<lparr>balance := balance e - key_sum p rows\<rparr>) (map_of ?bs p)"
    by blast
  have "subtract_shares (r # rows) bs = Inr bs'"
    using a e r by simp
  moreover have "map fst bs' = map fst bs"
    using b keys by simp
  moreover have "map_of bs' p = map_option (\<lambda>e. e\<lparr>balance := balance e - key_sum p (r # rows)\<rparr>) (map_of bs p)" for p
    using c e r by (cases "p = k") (auto simp: update_conv' key_sum_def algebra_simps)
  ultimately show ?case by blast
qed

lemma set_update_cases: "x \<in> set (AList.update k v al) \<Longrightarrow> x = (k, v) \<or> x \<in> set al"
  by (induction al) (auto split: if_splits)

lemma init_fold:
  "distinct (map fst bs) \<Longrightarrow> \<forall>kv\<in>set bs. balance (snd kv) = 0 \<Longrightarrow>
   distinct (map fst (foldl (\<lambda>bs row. case row of (pid, person_name) \<Rightarrow>
              AList.update pid \<lparr>name = person_name, balance = 0\<rparr> bs) bs persons)) \<and>
   fst ` set (foldl (\<lambda>bs row. case row of (pid, person_name) \<Rightarrow>
              AList.update pid \<lparr>name = person_name, balance = 0\<rparr> bs) bs persons)
     = fst ` set bs \<union> fst ` set persons \<and>
   (\<forall>kv\<in>set (foldl (\<lambda>bs row. case row of (pid, person_name) \<Rightarrow>
              AList.update pid \<lparr>name = person_name, balance = 0\<rparr> bs) bs persons). balance (snd kv) = 0)"
proof (induction persons arbitrary: bs)
  case Nil
  then show ?case by simp
next
  case (Cons row persons)
  obtain pid nm where row: "row = (pid, nm)" by (cases row)
  let ?bs = "AList.update pid \<lparr>name = nm, balance = 0\<rparr> bs"
  have d: "distinct (map fst ?bs)"
    using Cons.prems(1) by (rule distinct_update)
  have z: "\<forall>kv\<in>set ?bs. balance (snd kv) = 0"
    using Cons.prems(2) by (auto dest!: set_update_cases)
  have k: "fst ` set ?bs = insert pid (fst ` set bs)"
    by (simp add: dom_update)
  from Cons.IH [OF d z] show ?case
    by (simp add: row k)
qed

lemma init_balances_props:
  "distinct (map fst (init_balances persons)) \<and>
   fst ` set (init_balances persons) = fst ` set persons \<and>
   (\<forall>kv\<in>set (init_balances persons). balance (snd kv) = 0)"
  using init_fold [of "[]" persons] by (simp add: init_balances_def)

lemma sum_list_delta:
  "distinct ks \<Longrightarrow> a \<in> set ks \<Longrightarrow> (\<Sum>k\<leftarrow>ks. if a = k then v else 0) = (v::rat)"
proof (induction ks)
  case Nil
  then show ?case by simp
next
  case (Cons k ks)
  show ?case
  proof (cases "a = k")
    case True
    with Cons.prems have "a \<notin> set ks" by simp
    then have "(\<Sum>k\<leftarrow>ks. if a = k then v else 0) = 0"
      by (induction ks) auto
    with True show ?thesis by simp
  next
    case False
    with Cons show ?thesis by simp
  qed
qed

lemma regroup:
  "distinct ks \<Longrightarrow> f ` set rows \<subseteq> set ks \<Longrightarrow>
   (\<Sum>k\<leftarrow>ks. sum_list (map g (filter (\<lambda>r. f r = k) rows))) = (sum_list (map g rows) :: rat)"
proof (induction rows)
  case Nil
  then show ?case by simp
next
  case (Cons r rows)
  have "(\<Sum>k\<leftarrow>ks. sum_list (map g (filter (\<lambda>r. f r = k) (r # rows))))
      = (\<Sum>k\<leftarrow>ks. (if f r = k then g r else 0) + sum_list (map g (filter (\<lambda>r. f r = k) rows)))"
    by (rule arg_cong [where f = sum_list]) auto
  also have "\<dots> = (\<Sum>k\<leftarrow>ks. if f r = k then g r else 0)
      + (\<Sum>k\<leftarrow>ks. sum_list (map g (filter (\<lambda>r. f r = k) rows)))"
    by (rule sum_list_addf)
  also have "\<dots> = g r + sum_list (map g rows)"
    using Cons by (simp add: sum_list_delta)
  finally show ?case by simp
qed

lemma key_sum_map:
  "key_sum p (map (\<lambda>x. (f x, g x)) xs) = sum_list (map g (filter (\<lambda>x. f x = p) xs))"
  by (induction xs) (auto simp: key_sum_def)

lemma calculate_balances_result:
  assumes "references_known db"
  shows "\<exists>bs. calculate_balances db = Inr bs \<and>
           distinct (map fst bs) \<and> fst ` set bs = fst ` set (person db) \<and>
           (\<forall>kv\<in>set bs. balance (snd kv) = total_paid_by db (fst kv) - total_share_of db (fst kv))"
proof -
  let ?pay = "group_sum (map (\<lambda>e. (paid_by e, expense_amount e)) (expense db))"
  let ?sh = "group_sum (map (\<lambda>r. (split_person r, share_amount r)) (expense_split db))"
  let ?init = "init_balances (person db)"
  note ip = init_balances_props [of "person db"]
  from assms have r1: "paid_by ` set (expense db) \<subseteq> fst ` set (person db)"
    and r2: "split_person ` set (expense_split db) \<subseteq> fst ` set (person db)"
    by (auto simp: references_known_def list_all_iff)
  have "fst ` set ?pay \<subseteq> fst ` set ?init"
    using r1 ip by (simp add: group_sum_keys image_image)
  from add_payments_result [OF this] obtain bs1 where
    a1: "add_payments ?pay ?init = Inr bs1" and k1: "map fst bs1 = map fst ?init" and
    m1: "\<forall>p. map_of bs1 p = map_option (\<lambda>e. e\<lparr>balance := balance e + key_sum p ?pay\<rparr>) (map_of ?init p)"
    by blast
  have s1: "fst ` set bs1 = fst ` set ?init"
    using k1 by (metis list.set_map)
  have "fst ` set ?sh \<subseteq> fst ` set bs1"
    using r2 ip s1 by (simp add: group_sum_keys image_image)
  from subtract_shares_result [OF this] obtain bs2 where
    a2: "subtract_shares ?sh bs1 = Inr bs2" and k2: "map fst bs2 = map fst bs1" and
    m2: "\<forall>p. map_of bs2 p = map_option (\<lambda>e. e\<lparr>balance := balance e - key_sum p ?sh\<rparr>) (map_of bs1 p)"
    by blast
  have c: "calculate_balances db = Inr bs2"
    using a1 a2 by (simp add: calculate_balances_def)
  have d: "distinct (map fst bs2)"
    using k1 k2 ip by simp
  have s2: "fst ` set bs2 = fst ` set (person db)"
    using k2 s1 ip by (metis list.set_map)
  have "balance (snd kv) = total_paid_by db (fst kv) - total_share_of db (fst kv)"
    if kv: "kv \<in> set bs2" for kv
  proof -
    obtain p e where pe: "kv = (p, e)" by (cases kv)
    with kv d have "map_of bs2 p = Some e" by simp
    with m1 m2 obtain e0 where e0: "map_of ?init p = Some e0"
      and e: "e = e0\<lparr>balance := balance e0 + key_sum p ?pay - key_sum p ?sh\<rparr>"
      by (cases "map_of ?init p") auto
    from e0 have "(p, e0) \<in> set ?init" by (rule map_of_SomeD)
    with ip have "balance e0 = 0" by force
    with e pe show ?thesis
      by (simp add: key_sum_group_sum key_sum_map total_paid_by_def total_share_of_def)
  qed
  with c d s2 show ?thesis by blast
qed

lemma add_payments_keys:
  "add_payments rows bs = Inr bs' \<Longrightarrow> fst ` set rows \<subseteq> fst ` set bs"
proof (induction rows arbitrary: bs)
  case Nil
  then show ?case by simp
next
  case (Cons r rows)
  obtain k v where r: "r = (k, v)" by (cases r)
  from Cons.prems r obtain e where e: "map_of bs k = Some e"
    by (cases "map_of bs k") auto
  then have k: "k \<in> fst ` set bs"
    by (metis domI dom_map_of_conv_image_fst)
  let ?bs = "AList.update k (e\<lparr>balance := balance e + v\<rparr>) bs"
  from Cons.prems r e have "add_payments rows ?bs = Inr bs'" by simp
  from Cons.IH [OF this] have "fst ` set rows \<subseteq> fst ` set ?bs" .
  with k r show ?case
    by (auto simp: dom_update)
qed

lemma subtract_shares_keys:
  "subtract_shares rows bs = Inr bs' \<Longrightarrow> fst ` set rows \<subseteq> fst ` set bs"
proof (induction rows arbitrary: bs)
  case Nil
  then show ?case by simp
next
  case (Cons r rows)
  obtain k v where r: "r = (k, v)" by (cases r)
  from Cons.prems r obtain e where e: "map_of bs k = Some e"
    by (cases "map_of bs k") auto
  then have k: "k \<in> fst ` set bs"
    by (metis domI dom_map_of_conv_image_fst)
  let ?bs = "AList.update k (e\<lparr>balance := balance e - v\<rparr>) bs"
  from Cons.prems r e have "subtract_shares rows ?bs = Inr bs'" by simp
  from Cons.IH [OF this] have "fst ` set rows \<subseteq> fst ` set ?bs" .
  with k r show ?case
    by (auto simp: dom_update)
qed

text \<open>The balance computation returns exactly when all references are known; otherwise
  a dict lookup raises.\<close>

lemma calculate_balances_returns_iff:
  "(\<exists>bs. calculate_balances db = Inr bs) \<longleftrightarrow> references_known db"
proof
  assume "\<exists>bs. calculate_balances db = Inr bs"
  then obtain bs where c: "calculate_balances db = Inr bs" ..
  let ?pay = "group_sum (map (\<lambda>e. (paid_by e, expense_amount e)) (expense db))"
  let ?sh = "group_sum (map (\<lambda>r. (split_person r, share_amount r)) (expense_split db))"
  let ?init = "init_balances (person db)"
  from c obtain bs1 where a1: "add_payments ?pay ?init = Inr bs1"
    and a2: "subtract_shares ?sh bs1 = Inr bs"
    by (cases "add_payments ?pay ?init") (auto simp: calculate_balances_def)
  note ip = init_balances_props [of "person db"]
  from add_payments_keys [OF a1] have r1: "paid_by ` set (expense db) \<subseteq> fst ` set (person db)"
    using ip by (simp add: group_sum_keys image_image)
  have "fst ` set ?pay \<subseteq> fst ` set ?init"
    using add_payments_keys [OF a1] .
  from add_payments_result [OF this] a1 have "map fst bs1 = map fst ?init"
    by auto
  then have "fst ` set bs1 = fst ` set (person db)"
    using ip by (metis list.set_map)
  with subtract_shares_keys [OF a2] have r2: "split_person ` set (expense_split db) \<subseteq> fst ` set (person db)"
    by (simp add: group_sum_keys image_image)
  from r1 r2 show "references_known db"
    by (auto simp: references_known_def list_all_iff)
next
  assume "references_known db"
  from calculate_balances_result [OF this] show "\<exists>bs. calculate_balances db = Inr bs"
    by blast
qed

lemma expense_splits_all: "splits_belong db \<Longrightarrow> expense_splits db = expense_split db"
  by (simp add: splits_belong_def expense_splits_def list_all_iff)

lemma total_share_across:
  "splits_belong db \<Longrightarrow> total_share_of db p = shares_across_expenses db p"
  by (simp add: total_share_of_def shares_across_expenses_def expense_splits_all)

lemma balance_sum_regrouped:
  assumes "references_known db" and "distinct (map expense_id (expense db))"
    and "splits_belong db" and "shares_exact db"
  shows "\<exists>bs. calculate_balances db = Inr bs \<and> balance_sum bs = 0"
proof -
  from calculate_balances_result [OF assms(1)] obtain bs where
    c: "calculate_balances db = Inr bs" and d: "distinct (map fst bs)" and
    k: "fst ` set bs = fst ` set (person db)" and
    b: "\<forall>kv\<in>set bs. balance (snd kv) = total_paid_by db (fst kv) - total_share_of db (fst kv)"
    by blast
  from assms(1) have r1: "paid_by ` set (expense db) \<subseteq> set (map fst bs)"
    and r2: "split_person ` set (expense_split db) \<subseteq> set (map fst bs)"
    using k by (auto simp: references_known_def list_all_iff)
  note de = assms(2)
  from assms(3) have se: "split_expense ` set (expense_split db) \<subseteq> set (map expense_id (expense db))"
    by (auto simp: splits_belong_def list_all_iff)
  from assms(4) have ex: "\<forall>e\<in>set (expense db).
        sum_list (map share_amount (filter (\<lambda>r. split_expense r = expense_id e) (expense_split db)))
        = expense_amount e"
    by (auto simp: shares_exact_def list_all_iff splits_of_def)
  have "balance_sum bs = (\<Sum>kv\<leftarrow>bs. total_paid_by db (fst kv) - total_share_of db (fst kv))"
    unfolding balance_sum_def using b by (intro arg_cong [where f = sum_list] map_cong) auto
  also have "\<dots> = (\<Sum>p\<leftarrow>map fst bs. total_paid_by db p) - (\<Sum>p\<leftarrow>map fst bs. total_share_of db p)"
    by (simp add: sum_list_subtractf comp_def)
  also have "(\<Sum>p\<leftarrow>map fst bs. total_paid_by db p) = sum_list (map expense_amount (expense db))"
    unfolding total_paid_by_def by (rule regroup [OF d r1])
  also have "(\<Sum>p\<leftarrow>map fst bs. total_share_of db p) = sum_list (map share_amount (expense_split db))"
    unfolding total_share_of_def by (rule regroup [OF d r2])
  also have "sum_list (map expense_amount (expense db))
      = (\<Sum>e\<leftarrow>expense db. sum_list (map share_amount
            (filter (\<lambda>r. split_expense r = expense_id e) (expense_split db))))"
    using ex by (intro arg_cong [where f = sum_list] map_cong) auto
  also have "\<dots> = (\<Sum>k\<leftarrow>map expense_id (expense db). sum_list (map share_amount
            (filter (\<lambda>r. split_expense r = k) (expense_split db))))"
    by (simp add: comp_def)
  also have "\<dots> = sum_list (map share_amount (expense_split db))"
    by (rule regroup [OF de se])
  finally have "balance_sum bs = 0" by simp
  with c show ?thesis by blast
qed

lemma example_references: "references_known example_db"
  by code_simp

lemma example_belong: "splits_belong example_db"
  by code_simp

lemma example_result: "calculate_balances example_db = Inr example_balances"
  by code_simp

section \<open>The claims\<close>

subsection \<open>C1: the amounts of a plan add up to the positive balances\<close>




subsection \<open>C2: the balance of each person\<close>

text \<open>
  C2, as amended. The dict is read at the id of every payer and of every split person, and
  reading a key that it does not have raises; the ids have to be known. When every payer
  and every split person is a row of the person table, and every split row is the split
  of an expense of the table, the balance computation returns a dict with exactly one
  entry per person of the table, in which each person's balance is the sum of the amounts
  of the expenses they paid minus the sum of their shares across all expenses; a person
  who paid no expense and has no share in any expense has balance 0. Nothing is said here
  of tables in which split rows of deleted expenses remain (see C5).
\<close>

theorem balances_per_person:
  assumes "references_known db" and "splits_belong db"
  shows "\<exists>bs. calculate_balances db = Inr bs \<and>
           distinct (map fst bs) \<and> fst ` set bs = fst ` set (person db) \<and>
           (\<forall>kv\<in>set bs.
              balance (snd kv) = total_paid_by db (fst kv) - shares_across_expenses db (fst kv) \<and>
              (fst kv \<notin> paid_by ` set (expense db) \<and> fst kv \<notin> split_person ` set (expense_splits db)
                 \<longrightarrow> balance (snd kv) = 0))"
proof -
  have z: "total_paid_by db p - shares_across_expenses db p = 0"
    if "p \<notin> paid_by ` set (expense db)" "p \<notin> split_person ` set (expense_splits db)" for p
  proof -
    from that have "filter (\<lambda>e. paid_by e = p) (expense db) = []"
      "filter (\<lambda>r. split_person r = p) (expense_splits db) = []"
      by (auto simp: filter_empty_conv)
    then show ?thesis
      by (simp add: total_paid_by_def shares_across_expenses_def)
  qed
  from calculate_balances_result [OF assms(1)] obtain bs where
    "calculate_balances db = Inr bs" "distinct (map fst bs)" "fst ` set bs = fst ` set (person db)"
    "\<forall>kv\<in>set bs. balance (snd kv) = total_paid_by db (fst kv) - total_share_of db (fst kv)"
    by blast
  with z show ?thesis
    by (intro exI [of _ bs]) (simp add: total_share_across [OF assms(2)])
qed

text \<open>Scenario A with Dave: Bob's balance is what he paid minus his shares, and Dave's is 0.\<close>

theorem balances_per_person_witness:
  "references_known example_db \<and> splits_belong example_db \<and>
   calculate_balances example_db = Inr example_balances \<and>
   distinct (map fst example_balances) \<and>
   fst ` set example_balances = fst ` set (person example_db) \<and>
   balance \<lparr>name = ''Bob'', balance = - 10\<rparr>
     = total_paid_by example_db 2 - shares_across_expenses example_db 2 \<and>
   4 \<notin> paid_by ` set (expense example_db) \<and>
   4 \<notin> split_person ` set (expense_splits example_db) \<and>
   balance \<lparr>name = ''Dave'', balance = 0\<rparr> = 0"
proof -
  from balances_per_person [OF example_references example_belong] obtain bs where
    c: "calculate_balances example_db = Inr bs" and d: "distinct (map fst bs)" and
    k: "fst ` set bs = fst ` set (person example_db)" and
    b: "\<forall>kv\<in>set bs.
          balance (snd kv) = total_paid_by example_db (fst kv) - shares_across_expenses example_db (fst kv) \<and>
          (fst kv \<notin> paid_by ` set (expense example_db) \<and>
           fst kv \<notin> split_person ` set (expense_splits example_db) \<longrightarrow> balance (snd kv) = 0)"
    by blast
  from c have bs: "bs = example_balances"
    by (simp add: example_result)
  have m: "(2, \<lparr>name = ''Bob'', balance = - 10\<rparr>) \<in> set bs"
    by (simp add: bs example_balances_def)
  have n: "4 \<notin> paid_by ` set (expense example_db)"
    "4 \<notin> split_person ` set (expense_splits example_db)"
    by (simp_all add: example_db_def expense_splits_def paid_by_def split_person_def
        split_expense_def expense_id_def)
  from b m have "balance (snd (2::nat, \<lparr>name = ''Bob'', balance = - 10\<rparr>))
      = total_paid_by example_db (fst (2::nat, \<lparr>name = ''Bob'', balance = - 10\<rparr>))
        - shares_across_expenses example_db (fst (2::nat, \<lparr>name = ''Bob'', balance = - 10\<rparr>))"
    by blast
  then have e: "balance \<lparr>name = ''Bob'', balance = - 10\<rparr>
      = total_paid_by example_db 2 - shares_across_expenses example_db 2"
    by (simp only: fst_conv snd_conv)
  from example_references example_belong example_result d k e n show ?thesis
    by (simp add: bs)
qed

text \<open>
  C2 as it is stated, for every list of persons and every list of expenses, fails: with
  Bob as the only person and an expense that person 1 paid, the lookup of person 1 raises
  and no dict is returned.
\<close>

theorem unknown_payer_counterexample:
  "calculate_balances \<lparr>person = [(2, ''Bob'')],
                       expense = [(1, ''Dinner'', 30, ''2024-01-01'', 1)],
                       expense_split = [(1, 1, 2, 30)]\<rparr> = Inl (KeyError 1)"
  by code_simp

subsection \<open>C3: persons with balance zero\<close>

text \<open>
  C3, as amended. The classifying pass compares with zero strictly, without a tolerance.
  So it is a person whose balance is exactly 0 who is put in neither the debtor list nor
  the creditor list, and whom no transaction of the plan names as debtor or as creditor.
  The balances are a dict, with one entry per key.
\<close>

theorem settled_person_unreferenced:
  assumes "distinct (map fst bs)" and "(p, e) \<in> set bs" and "balance e = 0"
  shows "p \<notin> fst ` set (fst (split_parties bs)) \<and>
         p \<notin> fst ` set (snd (split_parties bs)) \<and>
         (\<forall>t\<in>set (plan_settlement bs). txn_debtor t \<noteq> p \<and> txn_creditor t \<noteq> p)"
proof -
  have only: "e' = e" if "(p, e') \<in> set bs" for e'
    using assms(1,2) that by (metis map_of_is_SomeI option.inject)
  have nd: "p \<notin> fst ` set (debtors_of bs)"
    using only assms(3) by (auto simp: debtors_of_ids)
  have nc: "p \<notin> fst ` set (creditors_of bs)"
    using only assms(3) by (auto simp: creditors_of_ids)
  have "txn_debtor t \<noteq> p \<and> txn_creditor t \<noteq> p" if "t \<in> set (plan_settlement bs)" for t
    using plan_ids [OF that] only assms(3) by auto
  with nd nc show ?thesis
    by (simp add: split_parties_eq)
qed

text \<open>Scenario D: Dave, with balance 0, next to Alice (20) and Bob (-20).\<close>

theorem settled_person_unreferenced_witness:
  "distinct (map fst [(1::nat, \<lparr>name = ''Alice'', balance = 20\<rparr>), (2, \<lparr>name = ''Bob'', balance = - 20\<rparr>),
                      (3, \<lparr>name = ''Dave'', balance = 0\<rparr>)]) \<and>
   (3, \<lparr>name = ''Dave'', balance = 0\<rparr>) \<in> set [(1::nat, \<lparr>name = ''Alice'', balance = 20\<rparr>),
                      (2, \<lparr>name = ''Bob'', balance = - 20\<rparr>), (3, \<lparr>name = ''Dave'', balance = 0\<rparr>)] \<and>
   balance \<lparr>name = ''Dave'', balance = 0\<rparr> = 0 \<and>
   (2, ''Bob'', 1, ''Alice'', 20) \<in> set (plan_settlement [(1, \<lparr>name = ''Alice'', balance = 20\<rparr>),
                      (2, \<lparr>name = ''Bob'', balance = - 20\<rparr>), (3, \<lparr>name = ''Dave'', balance = 0\<rparr>)]) \<and>
   txn_debtor (2, ''Bob'', 1, ''Alice'', 20) \<noteq> 3 \<and> txn_creditor (2, ''Bob'', 1, ''Alice'', 20) \<noteq> 3"
proof -
  let ?bs = "[(1, \<lparr>name = ''Alice'', balance = 20\<rparr>), (2, \<lparr>name = ''Bob'', balance = - 20\<rparr>),
              (3, \<lparr>name = ''Dave'', balance = 0\<rparr>)] :: balances"
  have h1: "distinct (map fst ?bs)" by simp
  have h2: "(3, \<lparr>name = ''Dave'', balance = 0\<rparr>) \<in> set ?bs" by simp
  have h3: "balance \<lparr>name = ''Dave'', balance = 0\<rparr> = 0" by simp
  have m: "(2, ''Bob'', 1, ''Alice'', 20) \<in> set (plan_settlement ?bs)"
    by code_simp
  from settled_person_unreferenced [OF h1 h2 h3] m h1 h2 h3 show ?thesis
    by blast
qed

text \<open>
  C3 as it is stated, for a balance within \<open>1/100\<close> of zero, fails: with the balances
  -0.005 and 0.005, the first person is in the debtor list and pays the second one 0.005.
\<close>

theorem zero_counterexample:
  "\<bar>balance \<lparr>name = ''A'', balance = - (1 / 200)\<rparr>\<bar> < 1 / 100 \<and>
   (1, ''A'', 1 / 200) \<in> set (fst (split_parties [(1, \<lparr>name = ''A'', balance = - (1 / 200)\<rparr>),
                                                    (2, \<lparr>name = ''B'', balance = 1 / 200\<rparr>)])) \<and>
   plan_settlement [(1, \<lparr>name = ''A'', balance = - (1 / 200)\<rparr>), (2, \<lparr>name = ''B'', balance = 1 / 200\<rparr>)]
     = [(1, ''A'', 2, ''B'', 1 / 200)]"
  by code_simp

subsection \<open>C4: what each person pays and receives\<close>




subsection \<open>C5: the balances add up to zero\<close>

text \<open>
  C5. When the shares of every expense add up exactly to its amount, the balances that the
  balance computation returns should add up exactly to 0. The program does not keep to
  this. With the dinner and the taxi recorded, the shares are exact and the balances are
  40 and -40. After \<^verbatim>\<open>delete_expense\<close> of the taxi the shares of the one expense left are
  still exact, but Bob's split row of 30 for the taxi is still in the table and is still
  subtracted: the balances are 10 and -40 and add up to -30. On tables in which every
  split row is the split of an expense, the returned balances do add up to 0
  (\<open>balance_sum_regrouped\<close>); the fault is in what \<^verbatim>\<open>delete_expense\<close> leaves behind.
\<close>

theorem deleted_expense_shares_remain:
  "shares_exact two_expenses_db \<and>
   calculate_balances two_expenses_db
     = Inr [(1, \<lparr>name = ''Alice'', balance = 40\<rparr>), (2, \<lparr>name = ''Bob'', balance = - 40\<rparr>)] \<and>
   shares_exact (delete_expense two_expenses_db 2) \<and>
   references_known (delete_expense two_expenses_db 2) \<and>
   calculate_balances (delete_expense two_expenses_db 2)
     = Inr [(1, \<lparr>name = ''Alice'', balance = 10\<rparr>), (2, \<lparr>name = ''Bob'', balance = - 40\<rparr>)] \<and>
   balance_sum [(1, \<lparr>name = ''Alice'', balance = 10\<rparr>), (2, \<lparr>name = ''Bob'', balance = - 40\<rparr>)] = - 30"
  by code_simp

subsection \<open>C6: the loop ends and nothing raises\<close>

text \<open>
  C6. With no condition on the balances: an iteration of the loop moves at least one of
  the two cursors forward by one, moves none back and keeps the lengths of both lists;
  the loop ends after at most as many iterations as there are entries from the cursors
  on, in a state where one of the lists is exhausted; and when every payer and every
  split person is a row of the person table, the balance computation returns the
  balances and the settlement plan is returned for them, with no error.
\<close>

theorem walk_terminates:
  "(running s \<longrightarrow>
      (i (step s) = Suc (i s) \<or> j (step s) = Suc (j s)) \<and> i s \<le> i (step s) \<and> j s \<le> j (step s) \<and>
      length (debtors (step s)) = length (debtors s) \<and>
      length (creditors (step s)) = length (creditors s)) \<and>
   (\<exists>n\<le>(length (debtors s) - i s) + (length (creditors s) - j s).
      walk s = (step ^^ n) s \<and> (\<forall>k<n. running ((step ^^ k) s))) \<and>
   \<not> running (walk s) \<and>
   (references_known db \<longrightarrow>
      (\<exists>bs. calculate_balances db = Inr bs \<and> get_settlement_plan db = Inr (plan_settlement bs)))"
proof -
  have "\<exists>bs. calculate_balances db = Inr bs \<and> get_settlement_plan db = Inr (plan_settlement bs)"
    if "references_known db"
  proof -
    from calculate_balances_result [OF that] obtain bs where "calculate_balances db = Inr bs"
      by blast
    then show ?thesis by (simp add: get_settlement_plan_def)
  qed
  with step_advances [of s] walk_iterations [of s] walk_stops [of s] show ?thesis
    by blast
qed

text \<open>The loop of scenario A, and the plan for the database of scenario A with Dave.\<close>

theorem walk_terminates_witness:
  "running example_state \<and>
   (i (step example_state) = Suc (i example_state) \<or> j (step example_state) = Suc (j example_state)) \<and>
   \<not> running (walk example_state) \<and>
   references_known example_db \<and>
   get_settlement_plan example_db = Inr (plan_settlement example_balances)"
proof -
  have r: "running example_state"
    by (simp add: running_def example_state_def)
  from walk_terminates [of example_state example_db] r example_references
  obtain bs where a: "i (step example_state) = Suc (i example_state) \<or> j (step example_state) = Suc (j example_state)"
    and b: "\<not> running (walk example_state)"
    and c: "calculate_balances example_db = Inr bs"
    and g: "get_settlement_plan example_db = Inr (plan_settlement bs)"
    by blast
  from c have "bs = example_balances"
    by (simp add: example_result)
  with r a b g example_references show ?thesis
    by simp
qed

subsection \<open>C7: amounts are positive\<close>

text \<open>
  C7. Every transaction of the plan has a strictly positive amount, whatever the balances.
\<close>

theorem amounts_positive: "\<forall>t\<in>set (plan_settlement bs). 0 < txn_amount t"
proof
  fix t
  assume "t \<in> set (plan_settlement bs)"
  then have "t \<in> set (settle (sort_desc (debtors_of bs)) (sort_desc (creditors_of bs)))"
    by (simp only: plan_settlement_settle)
  then show "0 < txn_amount t"
    by (rule settle_positive [rotated 2])
       (simp_all add: set_sort_desc debtors_of_positive creditors_of_positive)
qed

text \<open>Bob's payment in scenario A.\<close>

theorem amounts_positive_witness:
  "(2, ''Bob'', 1, ''Alice'', 10) \<in> set (plan_settlement
      [(1, \<lparr>name = ''Alice'', balance = 20\<rparr>), (2, \<lparr>name = ''Bob'', balance = - 10\<rparr>),
       (3, \<lparr>name = ''Carol'', balance = - 10\<rparr>)]) \<and>
   0 < txn_amount (2, ''Bob'', 1, ''Alice'', 10)"
proof -
  let ?bs = "[(1, \<lparr>name = ''Alice'', balance = 20\<rparr>), (2, \<lparr>name = ''Bob'', balance = - 10\<rparr>),
              (3, \<lparr>name = ''Carol'', balance = - 10\<rparr>)] :: balances"
  have m: "(2, ''Bob'', 1, ''Alice'', 10) \<in> set (plan_settlement ?bs)"
    by code_simp
  with amounts_positive [of ?bs] show ?thesis
    by blast
qed

subsection \<open>C8: amounts that are almost equal\<close>

text \<open>
  C8. When the loop runs and the amounts at the two cursors are less than \<open>1/100\<close> apart,
  the iteration appends the one transaction from the debtor to the creditor with the
  debtor's amount, moves both cursors by one and leaves both lists as they are. The rest
  of the plan is the plan of the entries after the two, so nothing is emitted for the
  difference of the two amounts.
\<close>

theorem almost_equal_step:
  assumes "running s"
    and "debtors s ! i s = (di, dn, debt)"
    and "creditors s ! j s = (ci, cn, credit)"
    and "\<bar>debt - credit\<bar> < 1 / 100"
  shows "step s = s\<lparr>transactions := transactions s @ [(di, dn, ci, cn, debt)],
                    i := Suc (i s), j := Suc (j s)\<rparr> \<and>
         transactions (walk s) =
           transactions s @ [(di, dn, ci, cn, debt)] @
           transactions (walk \<lparr>debtors = drop (Suc (i s)) (debtors s),
                                creditors = drop (Suc (j s)) (creditors s),
                                i = 0, j = 0, transactions = []\<rparr>)"
proof -
  have st: "step s = s\<lparr>transactions := transactions s @ [(di, dn, ci, cn, debt)],
                       i := Suc (i s), j := Suc (j s)\<rparr>"
    using assms(2-4) by (simp add: step_def)
  have "walk s = walk (step s)"
    using assms(1) walk.simps [of s] by simp
  then have "transactions (walk s) = transactions (step s) @
      settle (drop (i (step s)) (debtors (step s))) (drop (j (step s)) (creditors (step s)))"
    by (simp only: walk_settle)
  then have "transactions (walk s) = transactions s @ [(di, dn, ci, cn, debt)] @
      settle (drop (Suc (i s)) (debtors s)) (drop (Suc (j s)) (creditors s))"
    by (simp add: st)
  with st show ?thesis
    by (simp add: walk_settle)
qed

text \<open>A debt of 10 against a credit of 10.005: one payment of 10 and nothing more.\<close>

theorem almost_equal_step_witness:
  "running \<lparr>debtors = [(2, ''Bob'', 10)], creditors = [(1, ''Alice'', 2001 / 200)], i = 0, j = 0, transactions = []\<rparr> \<and>
   \<bar>(10::rat) - 2001 / 200\<bar> < 1 / 100 \<and>
   transactions (walk \<lparr>debtors = [(2, ''Bob'', 10)], creditors = [(1, ''Alice'', 2001 / 200)],
                        i = 0, j = 0, transactions = []\<rparr>) =
     [] @ [(2, ''Bob'', 1, ''Alice'', 10)] @
       transactions (walk \<lparr>debtors = drop (Suc 0) [(2, ''Bob'', 10)],
                            creditors = drop (Suc 0) [(1, ''Alice'', 2001 / 200)],
                            i = 0, j = 0, transactions = []\<rparr>)"
proof -
  let ?s = "\<lparr>debtors = [(2, ''Bob'', 10)], creditors = [(1, ''Alice'', 2001 / 200)],
             i = 0, j = 0, transactions = []\<rparr>"
  have h1: "running ?s" by (simp add: running_def)
  have h2: "debtors ?s ! i ?s = (2, ''Bob'', 10)" by simp
  have h3: "creditors ?s ! j ?s = (1, ''Alice'', 2001 / 200)" by simp
  have h4: "\<bar>(10::rat) - 2001 / 200\<bar> < 1 / 100" by simp
  from almost_equal_step [OF h1 h2 h3 h4] h1 h4 show ?thesis
    by simp
qed

subsection \<open>C9: scenario A\<close>

text \<open>
  C9. With the persons Alice, Bob and Carol and one expense of 30 paid by Alice and split
  in three shares of 10, the balances are Alice 20, Bob -10 and Carol -10, and the plan
  is: Bob pays Alice 10, then Carol pays Alice 10.
\<close>

theorem scenario_A:
  "calculate_balances \<lparr>person = [(1, ''Alice''), (2, ''Bob''), (3, ''Carol'')],
                       expense = [(1, ''Dinner'', 30, ''2024-01-01'', 1)],
                       expense_split = [(1, 1, 1, 10), (2, 1, 2, 10), (3, 1, 3, 10)]\<rparr>
     = Inr [(1, \<lparr>name = ''Alice'', balance = 20\<rparr>), (2, \<lparr>name = ''Bob'', balance = - 10\<rparr>),
            (3, \<lparr>name = ''Carol'', balance = - 10\<rparr>)] \<and>
   plan_settlement [(1, \<lparr>name = ''Alice'', balance = 20\<rparr>), (2, \<lparr>name = ''Bob'', balance = - 10\<rparr>),
            (3, \<lparr>name = ''Carol'', balance = - 10\<rparr>)]
     = [(2, ''Bob'', 1, ''Alice'', 10), (3, ''Carol'', 1, ''Alice'', 10)] \<and>
   get_settlement_plan \<lparr>person = [(1, ''Alice''), (2, ''Bob''), (3, ''Carol'')],
                       expense = [(1, ''Dinner'', 30, ''2024-01-01'', 1)],
                       expense_split = [(1, 1, 1, 10), (2, 1, 2, 10), (3, 1, 3, 10)]\<rparr>
     = Inr [(2, ''Bob'', 1, ''Alice'', 10), (3, ''Carol'', 1, ''Alice'', 10)]"
  by code_simp

subsection \<open>C10: nobody pays themselves\<close>

text \<open>
  C10. In every transaction of the plan the debtor's balance in the dict is strictly
  negative and the creditor's is strictly positive, so the two are different persons.
  The balances are a dict, with one entry per key.
\<close>

theorem parties_distinct:
  assumes "distinct (map fst bs)"
  shows "\<forall>t\<in>set (plan_settlement bs).
           txn_debtor t \<noteq> txn_creditor t \<and>
           (\<exists>e. map_of bs (txn_debtor t) = Some e \<and> balance e < 0) \<and>
           (\<exists>e. map_of bs (txn_creditor t) = Some e \<and> 0 < balance e)"
proof
  fix t
  assume "t \<in> set (plan_settlement bs)"
  from plan_ids [OF this] obtain e1 e2 where
    d: "(txn_debtor t, e1) \<in> set bs" "balance e1 < 0" and
    c: "(txn_creditor t, e2) \<in> set bs" "0 < balance e2"
    by blast
  from assms d(1) c(1) have m: "map_of bs (txn_debtor t) = Some e1" "map_of bs (txn_creditor t) = Some e2"
    by simp_all
  have "txn_debtor t \<noteq> txn_creditor t"
  proof
    assume "txn_debtor t = txn_creditor t"
    with m have "e1 = e2" by simp
    with d(2) c(2) show False by simp
  qed
  with m d(2) c(2) show "txn_debtor t \<noteq> txn_creditor t \<and>
           (\<exists>e. map_of bs (txn_debtor t) = Some e \<and> balance e < 0) \<and>
           (\<exists>e. map_of bs (txn_creditor t) = Some e \<and> 0 < balance e)"
    by blast
qed

text \<open>Bob pays Alice 20.\<close>

theorem parties_distinct_witness:
  "distinct (map fst [(1::nat, \<lparr>name = ''Alice'', balance = 20\<rparr>), (2, \<lparr>name = ''Bob'', balance = - 20\<rparr>)]) \<and>
   (2, ''Bob'', 1, ''Alice'', 20) \<in> set (plan_settlement
      [(1, \<lparr>name = ''Alice'', balance = 20\<rparr>), (2, \<lparr>name = ''Bob'', balance = - 20\<rparr>)]) \<and>
   txn_debtor (2, ''Bob'', 1, ''Alice'', 20) \<noteq> txn_creditor (2, ''Bob'', 1, ''Alice'', 20)"
proof -
  let ?bs = "[(1, \<lparr>name = ''Alice'', balance = 20\<rparr>), (2, \<lparr>name = ''Bob'', balance = - 20\<rparr>)] :: balances"
  have h: "distinct (map fst ?bs)"
    by simp
  have m: "(2, ''Bob'', 1, ''Alice'', 20) \<in> set (plan_settlement ?bs)"
    by code_simp
  from parties_distinct [OF h] m h show ?thesis
    by blast
qed

end
